theory Spec2Isabelle
  imports Main "HOL-Library.Sublist"
begin

section \<open>The plugin manager of \<^verbatim>\<open>control/plugin_manager.go\<close>\<close>

text \<open>
  The Go file keeps a table of pointers to \<^verbatim>\<open>loadedPlugin\<close> records in a slice
  that is replaced on every append and splice, together with one shared iteration
  cursor. The embedding keeps the three kinds of memory apart:
  \<^item> the records themselves, in a heap of objects addressed by natural numbers;
  \<^item> the backing arrays of slices, addressed by an array number and an index;
  \<^item> the fields of the \<^verbatim>\<open>loadedPlugins\<close> struct: the slice header and the cursor.
  A pointer is an optional address, \<open>None\<close> being Go's \<^verbatim>\<open>nil\<close>. The mutex is not
  part of the state: every operation is one step of a sequential execution, and each
  operation that locks also unlocks before it returns.
\<close>

subsection \<open>Errors, panics, strings\<close>

text \<open>Go errors are made by \<^verbatim>\<open>errors.New\<close> and \<^verbatim>\<open>fmt.Errorf\<close>: an error is its message.\<close>

type_synonym error = string

text \<open>A run-time panic (index out of range, nil dereference) is an outcome of its own.\<close>

datatype 'a outcome = Panic | Return 'a

text \<open>\<^verbatim>\<open>strconv.Itoa\<close>: the decimal digits of an integer, with a sign when negative.\<close>

fun digits10 :: "nat \<Rightarrow> string" where
  "digits10 n = (if n < 10 then [char_of (48 + n)]
                 else digits10 (n div 10) @ [char_of (48 + n mod 10)])"

declare digits10.simps [simp del]

definition Itoa :: "int \<Rightarrow> string" where
  "Itoa i = (if i < 0 then CHR ''-'' # digits10 (nat (- i)) else digits10 (nat i))"

subsection \<open>Plugin records\<close>

text \<open>\<^verbatim>\<open>type pluginState string\<close> with its four constants.\<close>

type_synonym pluginState = string

definition DetectedState :: pluginState where "DetectedState = ''detected''"
definition LoadingState :: pluginState where "LoadingState = ''loading''"
definition LoadedState :: pluginState where "LoadedState = ''loaded''"
definition UnloadedState :: pluginState where "UnloadedState = ''unloaded''"

text \<open>
  \<^verbatim>\<open>plugin.PluginMeta\<close> is declared in the \<^verbatim>\<open>plugin\<close> package; the manager reads its
  fields \<^verbatim>\<open>Name\<close> and \<^verbatim>\<open>Version\<close> only. \<^verbatim>\<open>plugin.PluginType\<close> is an integer kind and
  \<^verbatim>\<open>time.Time\<close> is kept as a Unix time.
\<close>

record PluginMeta =
  Name :: string
  Version :: int

record loadedPlugin =
  Meta :: PluginMeta
  Path :: string
  Type :: int
  State :: pluginState
  Token :: string
  LoadedTime :: int

text \<open>The zero value that \<^verbatim>\<open>new(loadedPlugin)\<close> allocates.\<close>

definition zero_loadedPlugin :: loadedPlugin where
  "zero_loadedPlugin =
     \<lparr>Meta = \<lparr>Name = [], Version = 0\<rparr>, Path = [], Type = 0, State = [],
      Token = [], LoadedTime = 0\<rparr>"

text \<open>The \<^verbatim>\<open>CatalogedPlugin\<close> argument of unload is read through \<^verbatim>\<open>Name()\<close> and \<^verbatim>\<open>Version()\<close>.\<close>

record CatalogedPlugin =
  pl_Name :: string
  pl_Version :: int

subsection \<open>Memory\<close>

type_synonym ref = "nat option"

text \<open>A slice header: the backing array, the length and the capacity.\<close>

record slice =
  arr :: nat
  len :: nat
  cap :: nat

record state =
  arrays :: "nat \<Rightarrow> nat \<Rightarrow> ref"
  next_array :: nat
  objects :: "nat \<Rightarrow> loadedPlugin"
  next_object :: nat
  table :: slice
  currentIter :: nat

text \<open>The elements a slice header shows in a given memory.\<close>

definition elems :: "state \<Rightarrow> slice \<Rightarrow> ref list" where
  "elems s sl = map (arrays s (arr sl)) [0..<len sl]"

text \<open>
  \<^verbatim>\<open>newPluginManager\<close> and \<^verbatim>\<open>newLoadedPlugins\<close>: an empty slice made by
  \<^verbatim>\<open>make([]*loadedPlugin, 0)\<close>, cursor at zero.
\<close>

definition newPluginManager :: state where
  "newPluginManager =
     \<lparr>arrays = (\<lambda>a i. None), next_array = 1, objects = (\<lambda>a. zero_loadedPlugin),
      next_object = 0, table = \<lparr>arr = 0, len = 0, cap = 0\<rparr>, currentIter = 0\<rparr>"

subsection \<open>The table operations\<close>

text \<open>
  The built-in \<^verbatim>\<open>append(s, x)\<close>: when the capacity allows, the element is written into
  the backing array behind the last one and the header grows; otherwise a new array is
  allocated and the old elements are copied. The capacity of a new array is the
  run-time's choice: \<open>grow\<close> maps the old capacity to the new one, and the new one
  is never smaller than what is needed.
\<close>

definition go_append :: "(nat \<Rightarrow> nat) \<Rightarrow> slice \<Rightarrow> ref \<Rightarrow> state \<Rightarrow> slice \<times> state" where
  "go_append grow sl x s =
     (if len sl < cap sl then
        (sl\<lparr>len := len sl + 1\<rparr>,
         s\<lparr>arrays := (arrays s)(arr sl := (arrays s (arr sl))(len sl := x))\<rparr>)
      else
        (let a = next_array s;
             old = arrays s (arr sl)
         in (\<lparr>arr = a, len = len sl + 1, cap = max (len sl + 1) (grow (cap sl))\<rparr>,
             s\<lparr>arrays := (arrays s)(a := (\<lambda>i. if i < len sl then old i
                                               else if i = len sl then x else None)),
               next_array := a + 1\<rparr>)))"

text \<open>The \<^verbatim>\<open>range\<close> loop of \<^verbatim>\<open>Append\<close>: the index of the first element equal to \<open>lp\<close>.\<close>

fun first_index :: "ref \<Rightarrow> ref list \<Rightarrow> nat \<Rightarrow> nat option" where
  "first_index lp [] i = None"
| "first_index lp (pl # rest) i = (if lp = pl then Some i else first_index lp rest (i + 1))"

definition DuplicateEntry :: "nat \<Rightarrow> error" where
  "DuplicateEntry i = ''plugin already loaded at index '' @ Itoa (int i)"

definition Append :: "(nat \<Rightarrow> nat) \<Rightarrow> ref \<Rightarrow> state \<Rightarrow> error option \<times> state" where
  "Append grow lp s =
     (case first_index lp (elems s (table s)) 0 of
        Some i \<Rightarrow> (Some (DuplicateEntry i), s)
      | None \<Rightarrow>
          (let (newLoadedPlugins, s') = go_append grow (table s) lp s
           in (None, s'\<lparr>table := newLoadedPlugins\<rparr>)))"

text \<open>\<^verbatim>\<open>Table\<close> returns the slice header: it shares the backing array with the table.\<close>

definition Table :: "state \<Rightarrow> slice" where
  "Table s = table s"

definition IndexOutOfRange :: error where
  "IndexOutOfRange = ''index out of range''"

text \<open>
  \<^verbatim>\<open>Get\<close> compares the index with the length only from above; the indexing that
  follows panics on a negative index.
\<close>

definition Get :: "int \<Rightarrow> state \<Rightarrow> (ref \<times> error option) outcome" where
  "Get index s =
     (if index > int (len (table s)) - 1 then Return (None, Some IndexOutOfRange)
      else if index < 0 then Panic
      else Return (arrays s (arr (table s)) (nat index), None))"

text \<open>
  \<^verbatim>\<open>splice\<close>: the two slice expressions panic unless \<open>0 \<le> index < len\<close> (a length
  never exceeds its capacity). The result of the \<^verbatim>\<open>append\<close> has one element less than
  the table, so it fits the capacity of \<^verbatim>\<open>(*l.table)[:index]\<close> and is written into the
  same backing array: the elements behind \<open>index\<close> move down by one, the last
  position keeps its old content, and the header shrinks by one.
\<close>

definition splice_table :: "int \<Rightarrow> state \<Rightarrow> state outcome" where
  "splice_table index s =
     (if index < 0 \<or> int (len (table s)) \<le> index then Panic
      else
        (let k = nat index;
             t = table s;
             old = arrays s (arr t)
         in Return (s\<lparr>arrays := (arrays s)(arr t :=
                         (\<lambda>i. if k \<le> i \<and> i + 1 < len t then old (i + 1) else old i)),
                       table := t\<lparr>len := len t - 1\<rparr>\<rparr>)))"

definition NonblockingSplice :: "int \<Rightarrow> state \<Rightarrow> state outcome" where
  "NonblockingSplice index s = splice_table index s"

definition Splice :: "int \<Rightarrow> state \<Rightarrow> state outcome" where
  "Splice index s = splice_table index s"

text \<open>The iteration protocol over the shared cursor.\<close>

definition Item :: "state \<Rightarrow> (int \<times> ref) outcome" where
  "Item s =
     (let i = int (currentIter s) - 1
      in if i < 0 \<or> int (len (table s)) \<le> i then Panic
         else Return (i, arrays s (arr (table s)) (nat i)))"

definition Next :: "state \<Rightarrow> bool \<times> state" where
  "Next s =
     (let c = currentIter s + 1
      in if c > len (table s) then (False, s\<lparr>currentIter := 0\<rparr>)
         else (True, s\<lparr>currentIter := c\<rparr>))"

subsection \<open>The collaborators of \<^verbatim>\<open>LoadPlugin\<close>\<close>

text \<open>
  Modelled from the spec: the \<^verbatim>\<open>plugin\<close> package (\<^verbatim>\<open>NewExecutablePlugin\<close>, \<^verbatim>\<open>Start\<close>,
  \<^verbatim>\<open>WaitForResponse\<close>, \<^verbatim>\<open>Response\<close>) is not part of the file. The handshake response is
  \<^verbatim>\<open>{state: enum{Success, Error}, errorMessage, meta: {name, version}, type, token}\<close>.
\<close>

datatype PluginResponseState = PluginSuccess | PluginFailure

record Response =
  resp_State :: PluginResponseState
  resp_ErrorMessage :: string
  resp_Meta :: PluginMeta
  resp_Type :: int
  resp_Token :: string

text \<open>
  What the collaborators answer during one call of \<^verbatim>\<open>LoadPlugin\<close>: the error of
  \<^verbatim>\<open>NewExecutablePlugin\<close>, the error of \<^verbatim>\<open>Start\<close>, the error or the response of
  \<^verbatim>\<open>WaitForResponse\<close>, and the clock read by \<^verbatim>\<open>time.Now\<close>.
\<close>

record launcher =
  create_err :: "error option"
  start_err :: "error option"
  wait_result :: "error + Response"
  now :: int

subsection \<open>The plugin manager\<close>

definition HandshakeRejected :: "string \<Rightarrow> error" where
  "HandshakeRejected msg = ''Plugin loading did not succeed: '' @ msg @ [CHR 0x0A]"

text \<open>
  \<^verbatim>\<open>new(loadedPlugin)\<close> and a caller's \<^verbatim>\<open>&loadedPlugin{...}\<close>: a fresh object with the
  given content. Go never hands out the address of a live object twice: the counter
  \<open>next_object\<close> stands for that.
\<close>

definition new_loadedPlugin :: "loadedPlugin \<Rightarrow> state \<Rightarrow> nat \<times> state" where
  "new_loadedPlugin r s =
     (next_object s,
      s\<lparr>objects := (objects s)(next_object s := r), next_object := next_object s + 1\<rparr>)"

text \<open>Assignments to the fields of the object behind a pointer.\<close>

definition assign :: "nat \<Rightarrow> (loadedPlugin \<Rightarrow> loadedPlugin) \<Rightarrow> state \<Rightarrow> state" where
  "assign a f s = s\<lparr>objects := (objects s)(a := f (objects s a))\<rparr>"

definition LoadPlugin :: "(nat \<Rightarrow> nat) \<Rightarrow> launcher \<Rightarrow> string \<Rightarrow> state \<Rightarrow> error option \<times> state" where
  "LoadPlugin grow ext path s =
     (let (lPlugin, s0) = new_loadedPlugin zero_loadedPlugin s;
          s1 = assign lPlugin (\<lambda>r. r\<lparr>Path := path, State := DetectedState\<rparr>) s0
      in case create_err ext of
           Some err \<Rightarrow> (Some err, s1)
         | None \<Rightarrow>
        (case start_err ext of
           Some err \<Rightarrow> (Some err, s1)
         | None \<Rightarrow>
        (case wait_result ext of
           Inl err \<Rightarrow> (Some err, s1)
         | Inr resp \<Rightarrow>
             if resp_State resp \<noteq> PluginSuccess
             then (Some (HandshakeRejected (resp_ErrorMessage resp)), s1)
             else
               (let s2 = assign lPlugin
                           (\<lambda>r. r\<lparr>Meta := resp_Meta resp, Type := resp_Type resp,
                                  Token := resp_Token resp, LoadedTime := now ext,
                                  State := LoadedState\<rparr>) s1
                in Append grow (Some lPlugin) s2))))"

text \<open>
  The scan of \<^verbatim>\<open>UnloadPlugin\<close>: the locals \<open>(index, plugin, found)\<close> and the registry
  go round the loop. \<^verbatim>\<open>Next\<close> is called before every round; a round that already has
  its match breaks, which leaves the cursor where that call of \<^verbatim>\<open>Next\<close> put it.
  Reading \<^verbatim>\<open>lp.Meta\<close> through a nil pointer panics. The key of a plugin is its name
  and version: \<open>same_key\<close> is the comparison of the loop.
\<close>

definition same_key :: "CatalogedPlugin \<Rightarrow> loadedPlugin \<Rightarrow> bool" where
  "same_key pl lp = (pl_Name pl = Name (Meta lp) \<and> pl_Version pl = Version (Meta lp))"

function unload_scan ::
  "CatalogedPlugin \<Rightarrow> int \<times> ref \<times> bool \<Rightarrow> state \<Rightarrow> ((int \<times> ref \<times> bool) \<times> state) outcome" where
  "unload_scan pl loc s =
     (if fst (Next s) then
        (if \<not> snd (snd loc) then
           (case Item (snd (Next s)) of
              Panic \<Rightarrow> Panic
            | Return (i, lp) \<Rightarrow>
                (case lp of
                   None \<Rightarrow> Panic
                 | Some a \<Rightarrow>
                     if same_key pl (objects (snd (Next s)) a)
                     then unload_scan pl (i, lp, True) (snd (Next s))
                     else unload_scan pl loc (snd (Next s))))
         else Return (loc, snd (Next s)))
      else Return (loc, snd (Next s)))"
  by pat_completeness auto
termination
  by (relation "measure (\<lambda>(pl, loc, s). len (table s) - currentIter s)")
     (auto simp: Next_def Let_def split: if_splits)

declare unload_scan.simps [simp del]

definition PluginNotFound :: "string \<Rightarrow> int \<Rightarrow> error" where
  "PluginNotFound name version =
     ''plugin ['' @ name @ ''] -- ['' @ Itoa version @
     ''] not found (has it already been unloaded?)''"

definition InvalidState :: error where
  "InvalidState = ''Plugin must be in a LoadedState''"

definition UnloadPlugin :: "CatalogedPlugin \<Rightarrow> state \<Rightarrow> (error option \<times> state) outcome" where
  "UnloadPlugin pl s =
     (case unload_scan pl (0, None, False) s of
        Panic \<Rightarrow> Panic
      | Return ((index, plugin, found), s') \<Rightarrow>
          if \<not> found then Return (Some (PluginNotFound (pl_Name pl) (pl_Version pl)), s')
          else
            (case plugin of
               None \<Rightarrow> Panic
             | Some a \<Rightarrow>
                 if State (objects s' a) \<noteq> LoadedState then Return (Some InvalidState, s')
                 else
                   (case NonblockingSplice index s' of
                      Panic \<Rightarrow> Panic
                    | Return s'' \<Rightarrow> Return (None, s''))))"

subsection \<open>Registry contents, reachable registries, and the key invariant\<close>

text \<open>The pointers the live table holds, in order.\<close>

definition entries :: "state \<Rightarrow> ref list" where
  "entries s = elems s (table s)"

text \<open>
  The registries that calls of the operations produce from a new manager. \<^verbatim>\<open>Get\<close> and
  \<^verbatim>\<open>Table\<close> change nothing. A pointer handed to \<^verbatim>\<open>Append\<close> is nil or the address
  of an object that exists; a call that panics has no successor.
\<close>

inductive reachable :: "(nat \<Rightarrow> nat) \<Rightarrow> state \<Rightarrow> bool" for grow :: "nat \<Rightarrow> nat" where
  reach_new: "reachable grow newPluginManager"
| reach_object: "reachable grow s \<Longrightarrow> reachable grow (snd (new_loadedPlugin r s))"
| reach_Append:
    "reachable grow s \<Longrightarrow> lp = None \<or> (\<exists>a. lp = Some a \<and> a < next_object s) \<Longrightarrow>
     reachable grow (snd (Append grow lp s))"
| reach_Splice: "reachable grow s \<Longrightarrow> Splice index s = Return s' \<Longrightarrow> reachable grow s'"
| reach_NonblockingSplice:
    "reachable grow s \<Longrightarrow> NonblockingSplice index s = Return s' \<Longrightarrow> reachable grow s'"
| reach_LoadPlugin: "reachable grow s \<Longrightarrow> reachable grow (snd (LoadPlugin grow ext path s))"
| reach_UnloadPlugin:
    "reachable grow s \<Longrightarrow> UnloadPlugin pl s = Return (err, s') \<Longrightarrow> reachable grow s'"

text \<open>
  The (name, version) keys of the records in the table whose state is not
  \<^verbatim>\<open>UnloadedState\<close>, in table order; the keys are unique when no key occurs twice.
\<close>

definition key_of :: "state \<Rightarrow> ref \<Rightarrow> (string \<times> int) option" where
  "key_of s r =
     (case r of
        None \<Rightarrow> None
      | Some a \<Rightarrow>
          if State (objects s a) = UnloadedState then None
          else Some (Name (Meta (objects s a)), Version (Meta (objects s a))))"

definition unique_keys :: "state \<Rightarrow> bool" where
  "unique_keys s = distinct (List.map_filter (key_of s) (entries s))"

text \<open>
  What \<^verbatim>\<open>Append\<close> does keep: no reference stands twice in the table, and every
  reference in it is the address of an object that exists.
\<close>

definition registry_inv :: "state \<Rightarrow> bool" where
  "registry_inv s =
     (distinct (entries s) \<and> (\<forall>a. Some a \<in> set (entries s) \<longrightarrow> a < next_object s))"

subsection \<open>Example registries\<close>

text \<open>A run-time that doubles the capacity, and plugins that answer the handshake.\<close>

definition grow2 :: "nat \<Rightarrow> nat" where
  "grow2 c = 2 * c"

definition answer :: "string \<Rightarrow> launcher" where
  "answer name =
     \<lparr>create_err = None, start_err = None,
      wait_result = Inr \<lparr>resp_State = PluginSuccess, resp_ErrorMessage = [],
                         resp_Meta = \<lparr>Name = name, Version = 1\<rparr>, resp_Type = 0,
                         resp_Token = ''abc''\<rparr>,
      now = 0\<rparr>"

definition refusal :: launcher where
  "refusal =
     \<lparr>create_err = None, start_err = None,
      wait_result = Inr \<lparr>resp_State = PluginFailure, resp_ErrorMessage = ''bad config'',
                         resp_Meta = \<lparr>Name = [], Version = 0\<rparr>, resp_Type = 0,
                         resp_Token = []\<rparr>,
      now = 0\<rparr>"

definition load :: "string \<Rightarrow> state \<Rightarrow> state" where
  "load name s = snd (LoadPlugin grow2 (answer name) (''/bin/'' @ name) s)"

text \<open>A record a caller made and appended while it is still in \<^verbatim>\<open>DetectedState\<close>.\<close>

definition detected :: "string \<Rightarrow> state \<Rightarrow> state" where
  "detected name s =
     (let (a, s') = new_loadedPlugin
                      (zero_loadedPlugin\<lparr>Meta := \<lparr>Name = name, Version = 1\<rparr>,
                                         State := DetectedState\<rparr>) s
      in snd (Append grow2 (Some a) s'))"

definition key :: "string \<Rightarrow> CatalogedPlugin" where
  "key name = \<lparr>pl_Name = name, pl_Version = 1\<rparr>"

definition after_unload :: "string \<Rightarrow> state \<Rightarrow> state" where
  "after_unload name s = (case UnloadPlugin (key name) s of Return (err, s') \<Rightarrow> s' | Panic \<Rightarrow> s)"

definition reg_ab :: state where
  "reg_ab = load ''b'' (load ''a'' newPluginManager)"

definition reg_abc :: state where
  "reg_abc = load ''c'' reg_ab"

definition reg_aa :: state where
  "reg_aa = load ''a'' (load ''a'' newPluginManager)"

definition reg_da :: state where
  "reg_da = load ''a'' (detected ''a'' newPluginManager)"

definition reg_qxpp :: state where
  "reg_qxpp = load ''p'' (detected ''p'' (load ''x'' (load ''q'' newPluginManager)))"

definition reg_xpp :: state where
  "reg_xpp = after_unload ''q'' reg_qxpp"

text \<open>A registry after \<^verbatim>\<open>Append(nil)\<close> on a new manager.\<close>

definition reg_nil :: state where
  "reg_nil = snd (Append grow2 None newPluginManager)"

section \<open>Properties of the table operations\<close>

subsection \<open>What a slice shows after append and splice\<close>

lemma length_elems [simp]: "length (elems s sl) = len sl"
  by (simp add: elems_def)

lemma nth_elems: "i < len sl \<Longrightarrow> elems s sl ! i = arrays s (arr sl) i"
  by (simp add: elems_def)

lemma elems_go_append:
  "go_append grow sl x s = (sl', s') \<Longrightarrow> elems s' sl' = elems s sl @ [x]"
  by (auto simp: go_append_def elems_def Let_def split: if_splits)

lemma go_append_frame:
  "go_append grow sl x s = (sl', s') \<Longrightarrow>
     objects s' = objects s \<and> next_object s' = next_object s \<and>
     currentIter s' = currentIter s \<and> len sl' = len sl + 1"
  by (auto simp: go_append_def Let_def split: if_splits)

lemma first_index_None: "first_index lp xs i = None \<longleftrightarrow> lp \<notin> set xs"
  by (induction xs arbitrary: i) auto

lemma first_index_Some:
  "first_index lp xs i = Some k \<Longrightarrow>
     i \<le> k \<and> k - i < length xs \<and> xs ! (k - i) = lp \<and> (\<forall>j < k - i. xs ! j \<noteq> lp)"
proof (induction xs arbitrary: i)
  case Nil
  then show ?case by simp
next
  case (Cons pl rest)
  show ?case
  proof (cases "lp = pl")
    case True
    with Cons.prems show ?thesis by simp
  next
    case False
    with Cons.prems have r: "first_index lp rest (i + 1) = Some k" by simp
    from Cons.IH [OF r] have h: "i + 1 \<le> k" "k - (i + 1) < length rest"
      "rest ! (k - (i + 1)) = lp" "\<forall>j < k - (i + 1). rest ! j \<noteq> lp" by auto
    from h(1) have e: "k - i = Suc (k - (i + 1))" by arith
    show ?thesis
      using h False unfolding e
      by (auto simp: nth_Cons split: nat.splits)
  qed
qed

lemma Append_duplicate:
  assumes "lp \<in> set (elems s (table s))"
  shows "\<exists>i. Append grow lp s = (Some (DuplicateEntry i), s) \<and> i < len (table s) \<and>
             elems s (table s) ! i = lp"
proof -
  from assms obtain k where k: "first_index lp (elems s (table s)) 0 = Some k"
    using first_index_None [of lp "elems s (table s)" 0] by (cases "first_index lp (elems s (table s)) 0") auto
  from first_index_Some [OF k] have "k < len (table s)" "elems s (table s) ! k = lp" by auto
  with k show ?thesis by (auto simp: Append_def)
qed

lemma Append_fresh:
  assumes "lp \<notin> set (elems s (table s))"
  shows "fst (Append grow lp s) = None \<and>
         elems (snd (Append grow lp s)) (table (snd (Append grow lp s))) = elems s (table s) @ [lp] \<and>
         objects (snd (Append grow lp s)) = objects s \<and>
         next_object (snd (Append grow lp s)) = next_object s \<and>
         currentIter (snd (Append grow lp s)) = currentIter s"
proof -
  from assms have n: "first_index lp (elems s (table s)) 0 = None"
    by (simp add: first_index_None)
  obtain sl' s' where g: "go_append grow (table s) lp s = (sl', s')"
    by (cases "go_append grow (table s) lp s")
  have e: "elems (s'\<lparr>table := sl'\<rparr>) sl' = elems s' sl'" by (simp add: elems_def)
  show ?thesis
    using n g elems_go_append [OF g] go_append_frame [OF g] e
    by (simp add: Append_def)
qed

lemma splice_elems:
  assumes "0 \<le> index" "index < int (len (table s))"
  shows "\<exists>s'. splice_table index s = Return s' \<and>
           elems s' (table s') = take (nat index) (elems s (table s)) @ drop (Suc (nat index)) (elems s (table s)) \<and>
           len (table s') + 1 = len (table s) \<and>
           objects s' = objects s \<and> next_object s' = next_object s \<and> currentIter s' = currentIter s"
proof -
  let ?k = "nat index"
  let ?t = "table s"
  let ?s' = "s\<lparr>arrays := (arrays s)(arr ?t :=
                 (\<lambda>i. if ?k \<le> i \<and> i + 1 < len ?t then arrays s (arr ?t) (i + 1) else arrays s (arr ?t) i)),
               table := ?t\<lparr>len := len ?t - 1\<rparr>\<rparr>"
  have r: "splice_table index s = Return ?s'"
    using assms by (simp add: splice_table_def Let_def)
  have k: "?k < len ?t" using assms by simp
  have "elems ?s' (table ?s') = take ?k (elems s ?t) @ drop (Suc ?k) (elems s ?t)"
  proof (rule nth_equalityI)
    show "length (elems ?s' (table ?s')) = length (take ?k (elems s ?t) @ drop (Suc ?k) (elems s ?t))"
      using k by simp
  next
    fix i assume "i < length (elems ?s' (table ?s'))"
    then have i: "i < len ?t - 1" by simp
    show "elems ?s' (table ?s') ! i = (take ?k (elems s ?t) @ drop (Suc ?k) (elems s ?t)) ! i"
      using i k by (auto simp: nth_elems nth_append min_def)
  qed
  with r k show ?thesis by auto
qed

subsection \<open>The scan over the shared cursor\<close>

lemma Next_end:
  "len (table s) \<le> currentIter s \<Longrightarrow> Next s = (False, s\<lparr>currentIter := 0\<rparr>)"
  by (simp add: Next_def Let_def)

lemma Next_step:
  "currentIter s < len (table s) \<Longrightarrow> Next s = (True, s\<lparr>currentIter := currentIter s + 1\<rparr>)"
  by (simp add: Next_def Let_def)

lemma Item_at:
  "0 < currentIter s \<Longrightarrow> currentIter s \<le> len (table s) \<Longrightarrow>
     Item s = Return (int (currentIter s) - 1, arrays s (arr (table s)) (currentIter s - 1))"
  by (auto simp: Item_def Let_def nat_diff_distrib)

lemma scan_after_match:
  "currentIter s = i + 1 \<Longrightarrow>
     unload_scan pl (idx, p, True) s =
       Return ((idx, p, True), s\<lparr>currentIter := (if i + 2 > len (table s) then 0 else i + 2)\<rparr>)"
  by (subst unload_scan.simps) (simp add: Next_def Let_def)

lemma scan_not_found:
  assumes "\<forall>j. currentIter s \<le> j \<and> j < len (table s) \<longrightarrow>
             (\<exists>b. arrays s (arr (table s)) j = Some b \<and> \<not> same_key pl (objects s b))"
  shows "unload_scan pl (idx, p, False) s = Return ((idx, p, False), s\<lparr>currentIter := 0\<rparr>)"
  using assms
proof (induction "len (table s) - currentIter s" arbitrary: s)
  case 0
  then have "len (table s) \<le> currentIter s" by simp
  then show ?case
    by (subst unload_scan.simps) (simp add: Next_end)
next
  case (Suc d)
  let ?c = "currentIter s"
  let ?s1 = "s\<lparr>currentIter := ?c + 1\<rparr>"
  from Suc.hyps(2) have lt: "?c < len (table s)" by simp
  from Suc.prems lt obtain b where b: "arrays s (arr (table s)) ?c = Some b"
    "\<not> same_key pl (objects s b)" by blast
  have nx: "Next s = (True, ?s1)" using lt by (rule Next_step)
  have it: "Item ?s1 = Return (int ?c, Some b)"
    using lt b(1) Item_at [of ?s1] by simp
  have d: "d = len (table ?s1) - currentIter ?s1" using Suc.hyps(2) by simp
  have pre: "\<forall>j. currentIter ?s1 \<le> j \<and> j < len (table ?s1) \<longrightarrow>
             (\<exists>b. arrays ?s1 (arr (table ?s1)) j = Some b \<and> \<not> same_key pl (objects ?s1 b))"
    using Suc.prems by simp
  have "unload_scan pl (idx, p, False) ?s1 = Return ((idx, p, False), ?s1\<lparr>currentIter := 0\<rparr>)"
    using Suc.hyps(1) [OF d pre] .
  then show ?case
    using nx it b(2) by (subst unload_scan.simps) simp
qed

lemma scan_found:
  assumes "currentIter s \<le> i" "i < len (table s)"
    "arrays s (arr (table s)) i = Some a" "same_key pl (objects s a)"
    "\<forall>j. currentIter s \<le> j \<and> j < i \<longrightarrow>
             (\<exists>b. arrays s (arr (table s)) j = Some b \<and> \<not> same_key pl (objects s b))"
  shows "unload_scan pl (idx, p, False) s =
           Return ((int i, Some a, True),
                   s\<lparr>currentIter := (if i + 2 > len (table s) then 0 else i + 2)\<rparr>)"
  using assms
proof (induction "i - currentIter s" arbitrary: s)
  case 0
  then have c: "currentIter s = i" by simp
  let ?s1 = "s\<lparr>currentIter := i + 1\<rparr>"
  have nx: "Next s = (True, ?s1)" using Next_step [of s] 0(3) c by simp
  have it: "Item ?s1 = Return (int i, Some a)"
    using 0(3,4) Item_at [of ?s1] by simp
  have "unload_scan pl (int i, Some a, True) ?s1 =
          Return ((int i, Some a, True), ?s1\<lparr>currentIter := (if i + 2 > len (table ?s1) then 0 else i + 2)\<rparr>)"
    by (rule scan_after_match) simp
  then show ?case
    using nx it 0(5) by (subst unload_scan.simps) simp
next
  case (Suc d)
  let ?c = "currentIter s"
  let ?s1 = "s\<lparr>currentIter := ?c + 1\<rparr>"
  from Suc.hyps(2) have lt: "?c < i" by simp
  with Suc.prems(2) have ltn: "?c < len (table s)" by simp
  from Suc.prems(5) lt obtain b where b: "arrays s (arr (table s)) ?c = Some b"
    "\<not> same_key pl (objects s b)" by blast
  have nx: "Next s = (True, ?s1)" using ltn by (rule Next_step)
  have it: "Item ?s1 = Return (int ?c, Some b)"
    using ltn b(1) Item_at [of ?s1] by simp
  have d: "d = i - currentIter ?s1" using Suc.hyps(2) by simp
  have "unload_scan pl (idx, p, False) ?s1 =
          Return ((int i, Some a, True), ?s1\<lparr>currentIter := (if i + 2 > len (table ?s1) then 0 else i + 2)\<rparr>)"
    using Suc.prems lt by (intro Suc.hyps(1) [OF d]) auto
  then show ?case
    using nx it b(2) by (subst unload_scan.simps) simp
qed

text \<open>A nil entry that the scan reaches before a match makes it panic.\<close>

lemma scan_nil:
  assumes "currentIter s \<le> i" "i < len (table s)" "arrays s (arr (table s)) i = None"
    "\<forall>j. currentIter s \<le> j \<and> j < i \<longrightarrow>
             (\<exists>b. arrays s (arr (table s)) j = Some b \<and> \<not> same_key pl (objects s b))"
  shows "unload_scan pl (idx, p, False) s = Panic"
  using assms
proof (induction "i - currentIter s" arbitrary: s)
  case 0
  then have c: "currentIter s = i" by simp
  let ?s1 = "s\<lparr>currentIter := i + 1\<rparr>"
  have nx: "Next s = (True, ?s1)" using Next_step [of s] 0(3) c by simp
  have it: "Item ?s1 = Return (int i, None)"
    using 0(3,4) Item_at [of ?s1] by simp
  show ?case
    using nx it by (subst unload_scan.simps) simp
next
  case (Suc d)
  let ?c = "currentIter s"
  let ?s1 = "s\<lparr>currentIter := ?c + 1\<rparr>"
  from Suc.hyps(2) have lt: "?c < i" by simp
  with Suc.prems(2) have ltn: "?c < len (table s)" by simp
  from Suc.prems(4) lt obtain b where b: "arrays s (arr (table s)) ?c = Some b"
    "\<not> same_key pl (objects s b)" by blast
  have nx: "Next s = (True, ?s1)" using ltn by (rule Next_step)
  have it: "Item ?s1 = Return (int ?c, Some b)"
    using ltn b(1) Item_at [of ?s1] by simp
  have d: "d = i - currentIter ?s1" using Suc.hyps(2) by simp
  have "unload_scan pl (idx, p, False) ?s1 = Panic"
    using Suc.prems lt by (intro Suc.hyps(1) [OF d]) auto
  then show ?case
    using nx it b(2) by (subst unload_scan.simps) simp
qed

subsection \<open>Unloading, from any cursor position\<close>

lemma length_entries: "length (entries s) = len (table s)"
  by (simp add: entries_def)

lemma nth_entries: "i < len (table s) \<Longrightarrow> entries s ! i = arrays s (arr (table s)) i"
  by (simp add: entries_def nth_elems)

lemma entries_cursor [simp]: "entries (s\<lparr>currentIter := c\<rparr>) = entries s"
  by (simp add: entries_def elems_def)

lemma UnloadPlugin_not_found:
  assumes "\<forall>j. currentIter s \<le> j \<and> j < length (entries s) \<longrightarrow>
             (\<exists>b. entries s ! j = Some b \<and> \<not> same_key pl (objects s b))"
  shows "UnloadPlugin pl s =
           Return (Some (PluginNotFound (pl_Name pl) (pl_Version pl)), s\<lparr>currentIter := 0\<rparr>)"
proof -
  have "\<forall>j. currentIter s \<le> j \<and> j < len (table s) \<longrightarrow>
             (\<exists>b. arrays s (arr (table s)) j = Some b \<and> \<not> same_key pl (objects s b))"
    using assms by (simp add: length_entries nth_entries)
  from scan_not_found [OF this] show ?thesis
    by (simp add: UnloadPlugin_def)
qed

lemma UnloadPlugin_found:
  assumes "currentIter s \<le> i" "i < length (entries s)" "entries s ! i = Some a"
    "same_key pl (objects s a)"
    "\<forall>j. currentIter s \<le> j \<and> j < i \<longrightarrow>
         (\<exists>b. entries s ! j = Some b \<and> \<not> same_key pl (objects s b))"
  shows "UnloadPlugin pl s =
           (if State (objects s a) \<noteq> LoadedState
            then Return (Some InvalidState,
                         s\<lparr>currentIter := (if i + 2 > len (table s) then 0 else i + 2)\<rparr>)
            else (case splice_table (int i)
                         (s\<lparr>currentIter := (if i + 2 > len (table s) then 0 else i + 2)\<rparr>) of
                    Panic \<Rightarrow> Panic
                  | Return s'' \<Rightarrow> Return (None, s'')))"
proof -
  have i: "i < len (table s)" using assms(2) by (simp add: length_entries)
  have a: "arrays s (arr (table s)) i = Some a" using assms(3) i by (simp add: nth_entries)
  have "\<forall>j. currentIter s \<le> j \<and> j < i \<longrightarrow>
             (\<exists>b. arrays s (arr (table s)) j = Some b \<and> \<not> same_key pl (objects s b))"
    using assms(5) i by (simp add: nth_entries)
  from scan_found [OF assms(1) i a assms(4) this] show ?thesis
    by (simp add: UnloadPlugin_def NonblockingSplice_def)
qed

lemma UnloadPlugin_nil_panics:
  assumes "currentIter s \<le> i" "i < length (entries s)" "entries s ! i = None"
    "\<forall>j. currentIter s \<le> j \<and> j < i \<longrightarrow>
         (\<exists>b. entries s ! j = Some b \<and> \<not> same_key pl (objects s b))"
  shows "UnloadPlugin pl s = Panic"
proof -
  have i: "i < len (table s)" using assms(2) by (simp add: length_entries)
  have a: "arrays s (arr (table s)) i = None" using assms(3) i by (simp add: nth_entries)
  have "\<forall>j. currentIter s \<le> j \<and> j < i \<longrightarrow>
             (\<exists>b. arrays s (arr (table s)) j = Some b \<and> \<not> same_key pl (objects s b))"
    using assms(4) i by (simp add: nth_entries)
  from scan_nil [OF assms(1) i a this] show ?thesis
    by (simp add: UnloadPlugin_def)
qed

lemma splice_entries:
  assumes "i < length (entries s)"
  shows "\<exists>s'. splice_table (int i) s = Return s' \<and>
           entries s' = take i (entries s) @ drop (Suc i) (entries s) \<and>
           length (entries s') + 1 = length (entries s) \<and>
           objects s' = objects s \<and> next_object s' = next_object s \<and>
           currentIter s' = currentIter s"
  using splice_elems [of "int i" s] assms by (simp add: entries_def)

lemma UnloadPlugin_removes:
  assumes "currentIter s \<le> i" "i < length (entries s)" "entries s ! i = Some a"
    "same_key pl (objects s a)" "State (objects s a) = LoadedState"
    "\<forall>j. currentIter s \<le> j \<and> j < i \<longrightarrow>
         (\<exists>b. entries s ! j = Some b \<and> \<not> same_key pl (objects s b))"
  shows "\<exists>s'. UnloadPlugin pl s = Return (None, s') \<and>
           entries s' = take i (entries s) @ drop (Suc i) (entries s) \<and>
           length (entries s') + 1 = length (entries s) \<and>
           objects s' = objects s \<and>
           currentIter s' = (if i + 2 > length (entries s) then 0 else i + 2)"
proof -
  let ?s1 = "s\<lparr>currentIter := (if i + 2 > len (table s) then 0 else i + 2)\<rparr>"
  have "i < length (entries ?s1)" using assms(2) by simp
  from splice_entries [OF this] obtain s' where s':
    "splice_table (int i) ?s1 = Return s'"
    "entries s' = take i (entries s) @ drop (Suc i) (entries s)"
    "length (entries s') + 1 = length (entries s)"
    "objects s' = objects s" "currentIter s' = currentIter ?s1"
    by auto
  have "UnloadPlugin pl s = Return (None, s')"
    using UnloadPlugin_found [OF assms(1-4) assms(6)] assms(5) s'(1) by simp
  moreover have "currentIter s' = (if i + 2 > length (entries s) then 0 else i + 2)"
    using s'(5) by (simp add: length_entries)
  ultimately show ?thesis using s'(2,3,4) by blast
qed


text \<open>With the cursor at zero, a first match that is not loaded fails and removes nothing.\<close>

lemma UnloadPlugin_invalid_state:
  assumes "currentIter s = 0" "i < length (entries s)" "entries s ! i = Some a"
    "same_key pl (objects s a)" "State (objects s a) \<noteq> LoadedState"
    "\<forall>j<i. \<exists>b. entries s ! j = Some b \<and> \<not> same_key pl (objects s b)"
  shows "\<exists>s'. UnloadPlugin pl s = Return (Some InvalidState, s') \<and> entries s' = entries s \<and>
           objects s' = objects s"
proof -
  have c: "currentIter s \<le> i" using assms(1) by simp
  have "\<forall>j. currentIter s \<le> j \<and> j < i \<longrightarrow>
         (\<exists>b. entries s ! j = Some b \<and> \<not> same_key pl (objects s b))"
    using assms(6) by simp
  from UnloadPlugin_found [OF c assms(2-4) this] assms(5) show ?thesis by simp
qed

lemma sublist_PluginNotFound:
  "sublist name (PluginNotFound name version) \<and> sublist (Itoa version) (PluginNotFound name version)"
proof
  have "PluginNotFound name version = ''plugin ['' @ name @ (''] -- ['' @ Itoa version @
     ''] not found (has it already been unloaded?)'')"
    by (simp add: PluginNotFound_def)
  then show "sublist name (PluginNotFound name version)"
    unfolding sublist_def by blast
  have "PluginNotFound name version = (''plugin ['' @ name @ ''] -- ['') @ Itoa version @
     ''] not found (has it already been unloaded?)''"
    by (simp add: PluginNotFound_def)
  then show "sublist (Itoa version) (PluginNotFound name version)"
    unfolding sublist_def by blast
qed

subsection \<open>Failing loads, and what every operation keeps\<close>

lemma Append_error_keeps_state:
  "fst (Append grow lp s) \<noteq> None \<Longrightarrow> snd (Append grow lp s) = s"
  by (auto simp: Append_def Let_def split: option.splits prod.splits)

lemma entries_objects [simp]:
  "entries (s\<lparr>objects := h\<rparr>) = entries s"
  "entries (s\<lparr>next_object := n\<rparr>) = entries s"
  by (simp_all add: entries_def elems_def)

lemma sublist_HandshakeRejected: "sublist msg (HandshakeRejected msg)"
  unfolding HandshakeRejected_def sublist_def by blast

lemma LoadPlugin_error_keeps_table:
  assumes "fst (LoadPlugin grow ext path s) \<noteq> None"
  shows "entries (snd (LoadPlugin grow ext path s)) = entries s \<and>
         table (snd (LoadPlugin grow ext path s)) = table s \<and>
         arrays (snd (LoadPlugin grow ext path s)) = arrays s"
  using assms Append_error_keeps_state
  by (auto simp: LoadPlugin_def new_loadedPlugin_def assign_def Let_def
           split: option.splits sum.splits if_splits)

lemma Next_frame: "snd (Next s) = s\<lparr>currentIter := currentIter (snd (Next s))\<rparr>"
  by (simp add: Next_def Let_def)

lemma unload_scan_frame:
  "unload_scan pl loc s = Return (loc', s') \<Longrightarrow> s' = s\<lparr>currentIter := currentIter s'\<rparr>"
proof (induction pl loc s rule: unload_scan.induct)
  case (1 pl loc s)
  have c0: "snd (Next s) = s\<lparr>currentIter := currentIter (snd (Next s))\<rparr>"
    by (rule Next_frame)
  have step: "s' = s\<lparr>currentIter := currentIter s'\<rparr>"
    if "s' = (snd (Next s))\<lparr>currentIter := currentIter s'\<rparr>"
  proof -
    have "s' = (s\<lparr>currentIter := currentIter (snd (Next s))\<rparr>)\<lparr>currentIter := currentIter s'\<rparr>"
      using that c0 by simp
    then show ?thesis by simp
  qed
  show ?case
  proof (cases "fst (Next s) \<and> \<not> snd (snd loc)")
    case False
    with "1.prems" have "s' = snd (Next s)"
      by (subst (asm) unload_scan.simps) (auto split: if_splits)
    with c0 show ?thesis by simp
  next
    case True
    with "1.prems" obtain i a where it: "Item (snd (Next s)) = Return (i, Some a)"
      by (subst (asm) unload_scan.simps)
         (auto split: outcome.splits option.splits)
    show ?thesis
    proof (cases "same_key pl (objects (snd (Next s)) a)")
      case k: True
      with True it "1.prems" have "unload_scan pl (i, Some a, True) (snd (Next s)) = Return (loc', s')"
        by (subst (asm) unload_scan.simps) simp
      from "1.IH"(1) [OF _ _ it refl refl k this] True
      have "s' = (snd (Next s))\<lparr>currentIter := currentIter s'\<rparr>" by blast
      then show ?thesis by (rule step)
    next
      case k: False
      with True it "1.prems" have "unload_scan pl loc (snd (Next s)) = Return (loc', s')"
        by (subst (asm) unload_scan.simps) simp
      from "1.IH"(2) [OF _ _ it refl refl k this] True
      have "s' = (snd (Next s))\<lparr>currentIter := currentIter s'\<rparr>" by blast
      then show ?thesis by (rule step)
    qed
  qed
qed

lemma splice_table_Return:
  assumes "splice_table index s = Return s'"
  shows "\<exists>k < length (entries s). entries s' = take k (entries s) @ drop (Suc k) (entries s) \<and>
           next_object s' = next_object s"
proof -
  from assms have r: "0 \<le> index" "index < int (len (table s))"
    by (auto simp: splice_table_def split: if_splits)
  then have "nat index < length (entries s)" by (simp add: length_entries)
  from splice_entries [OF this] r(1) assms
  have "entries s' = take (nat index) (entries s) @ drop (Suc (nat index)) (entries s) \<and>
        next_object s' = next_object s" by auto
  with \<open>nat index < length (entries s)\<close> show ?thesis by blast
qed

lemma UnloadPlugin_Return:
  assumes "UnloadPlugin pl s = Return (err, s')"
  shows "next_object s' = next_object s \<and>
         (entries s' = entries s \<or>
          (\<exists>k < length (entries s). entries s' = take k (entries s) @ drop (Suc k) (entries s)))"
proof -
  from assms obtain index plugin found s1 where
    sc: "unload_scan pl (0, None, False) s = Return ((index, plugin, found), s1)"
    by (auto simp: UnloadPlugin_def split: outcome.splits)
  from unload_scan_frame [OF sc] have s1: "s1 = s\<lparr>currentIter := currentIter s1\<rparr>" .
  have e1: "entries s1 = entries s" "next_object s1 = next_object s"
    by (subst s1, simp)+
  show ?thesis
  proof (cases "s' = s1")
    case True
    with e1 show ?thesis by simp
  next
    case False
    with assms sc have "splice_table index s1 = Return s'"
      by (auto simp: UnloadPlugin_def NonblockingSplice_def
               split: outcome.splits option.splits if_splits)
    from splice_table_Return [OF this] e1 show ?thesis by auto
  qed
qed

lemma distinct_remove_nth:
  "distinct xs \<Longrightarrow> distinct (take k xs @ drop (Suc k) xs)"
  by (metis append_take_drop_id distinct_append distinct_drop drop_Suc tl_drop
            distinct_tl set_take_disj_set_drop_if_distinct inf_commute le_refl
            distinct_take Suc_n_not_le_n nat_le_linear)

lemma set_remove_nth: "set (take k xs @ drop (Suc k) xs) \<subseteq> set xs"
  by (auto dest: in_set_takeD in_set_dropD)

lemma inv_remove_nth:
  "registry_inv s \<Longrightarrow> entries s' = take k (entries s) @ drop (Suc k) (entries s) \<Longrightarrow>
     next_object s' = next_object s \<Longrightarrow> registry_inv s'"
  unfolding registry_inv_def
  using distinct_remove_nth [of "entries s" k] set_remove_nth [of k "entries s"]
  by auto

lemma inv_Append:
  assumes "registry_inv s" "lp = None \<or> (\<exists>a. lp = Some a \<and> a < next_object s)"
  shows "registry_inv (snd (Append grow lp s))"
proof (cases "lp \<in> set (elems s (table s))")
  case True
  from Append_duplicate [OF this, of grow] assms(1) show ?thesis by auto
next
  case False
  from Append_fresh [OF this, of grow] assms False show ?thesis
    by (auto simp: registry_inv_def entries_def)
qed

lemma inv_new_loadedPlugin:
  "registry_inv s \<Longrightarrow> registry_inv (snd (new_loadedPlugin r s))"
  by (auto simp: registry_inv_def new_loadedPlugin_def dest: less_SucI)

lemma inv_assign: "registry_inv (assign a f s) = registry_inv s"
  by (simp add: registry_inv_def assign_def)

lemma LoadPlugin_cases:
  "snd (LoadPlugin grow ext path s) =
     assign (next_object s) (\<lambda>r. r\<lparr>Path := path, State := DetectedState\<rparr>)
       (snd (new_loadedPlugin zero_loadedPlugin s)) \<or>
   (\<exists>f. snd (LoadPlugin grow ext path s) =
      snd (Append grow (Some (next_object s))
        (assign (next_object s) f
          (assign (next_object s) (\<lambda>r. r\<lparr>Path := path, State := DetectedState\<rparr>)
            (snd (new_loadedPlugin zero_loadedPlugin s))))))"
  by (auto simp: LoadPlugin_def new_loadedPlugin_def Let_def split: option.splits sum.splits)

lemma inv_LoadPlugin:
  assumes "registry_inv s"
  shows "registry_inv (snd (LoadPlugin grow ext path s))"
proof -
  let ?a = "next_object s"
  let ?s1 = "assign ?a (\<lambda>r. r\<lparr>Path := path, State := DetectedState\<rparr>)
               (snd (new_loadedPlugin zero_loadedPlugin s))"
  have s1: "registry_inv ?s1"
    using assms by (simp add: inv_assign inv_new_loadedPlugin)
  have n: "next_object (assign ?a f ?s1) = ?a + 1" for f
    by (simp add: assign_def new_loadedPlugin_def)
  have "registry_inv (snd (Append grow (Some ?a) (assign ?a f ?s1)))" for f
    using s1 n [of f] by (intro inv_Append) (simp_all add: inv_assign)
  with s1 LoadPlugin_cases [of grow ext path s] show ?thesis by auto
qed

lemma reachable_inv: "reachable grow s \<Longrightarrow> registry_inv s"
proof (induction rule: reachable.induct)
  case reach_new
  show ?case by (simp add: registry_inv_def entries_def elems_def newPluginManager_def)
next
  case (reach_object s r)
  then show ?case by (simp add: inv_new_loadedPlugin)
next
  case (reach_Append s lp)
  then show ?case by (simp add: inv_Append)
next
  case (reach_Splice s index s')
  from splice_table_Return [of index s s'] reach_Splice show ?case
    by (auto simp: Splice_def intro: inv_remove_nth)
next
  case (reach_NonblockingSplice s index s')
  from splice_table_Return [of index s s'] reach_NonblockingSplice show ?case
    by (auto simp: NonblockingSplice_def intro: inv_remove_nth)
next
  case (reach_LoadPlugin s ext path)
  then show ?case by (simp add: inv_LoadPlugin)
next
  case (reach_UnloadPlugin s pl err s')
  from UnloadPlugin_Return [OF reach_UnloadPlugin(2)]
  have n: "next_object s' = next_object s"
    and e: "entries s' = entries s \<or>
            (\<exists>k < length (entries s). entries s' = take k (entries s) @ drop (Suc k) (entries s))"
    by simp_all
  from e show ?case
  proof
    assume "entries s' = entries s"
    with n reach_UnloadPlugin(3) show ?thesis by (simp add: registry_inv_def)
  next
    assume "\<exists>k < length (entries s). entries s' = take k (entries s) @ drop (Suc k) (entries s)"
    then obtain k where "entries s' = take k (entries s) @ drop (Suc k) (entries s)" by blast
    from inv_remove_nth [OF reach_UnloadPlugin(3) this n] show ?thesis .
  qed
qed

text \<open>
  A snapshot is a slice header kept by a caller. An append to the live table leaves
  what a snapshot of that table shows; a splice does not: it moves elements inside the
  array the snapshot shares.
\<close>

lemma Append_keeps_snapshot:
  assumes "arr (table s) < next_array s"
  shows "elems (snd (Append grow lp s)) (Table s) = elems s (Table s)"
  using assms
  by (auto simp: Append_def go_append_def Table_def elems_def Let_def split: option.splits)

lemma splice_table_snapshot:
  assumes "splice_table index s = Return s'" "arr sl = arr (table s)"
  shows "elems s' sl =
           map (\<lambda>i. if nat index \<le> i \<and> i + 1 < len (table s)
                     then arrays s (arr sl) (i + 1) else arrays s (arr sl) i) [0..<len sl]"
proof -
  from assms(1) have
    "s' = s\<lparr>arrays := (arrays s)(arr (table s) :=
               (\<lambda>i. if nat index \<le> i \<and> i + 1 < len (table s)
                     then arrays s (arr (table s)) (i + 1) else arrays s (arr (table s)) i)),
             table := (table s)\<lparr>len := len (table s) - 1\<rparr>\<rparr>"
    by (simp add: splice_table_def Let_def split: if_splits)
  then show ?thesis using assms(2) by (simp add: elems_def)
qed

subsection \<open>The example registries, evaluated\<close>

lemmas example_defs = entries_def elems_def load_def LoadPlugin_def new_loadedPlugin_def
  assign_def Append_def go_append_def newPluginManager_def answer_def grow2_def detected_def
  zero_loadedPlugin_def Let_def same_key_def key_def LoadedState_def DetectedState_def

lemma reg_ab_facts:
  "entries reg_ab = [Some 0, Some 1]" "currentIter reg_ab = 0"
  "table reg_ab = \<lparr>arr = 2, len = 2, cap = 2\<rparr>" "next_object reg_ab = 2"
  by (simp_all add: reg_ab_def example_defs)

lemma reg_abc_facts:
  "entries reg_abc = [Some 0, Some 1, Some 2]" "currentIter reg_abc = 0"
  "same_key (key ''a'') (objects reg_abc 0)" "\<not> same_key (key ''b'') (objects reg_abc 0)"
  "same_key (key ''b'') (objects reg_abc (Suc 0))"
  "\<not> same_key (key ''z'') (objects reg_abc 0)" "\<not> same_key (key ''z'') (objects reg_abc (Suc 0))"
  "\<not> same_key (key ''z'') (objects reg_abc 2)"
  "State (objects reg_abc 0) = LoadedState" "State (objects reg_abc (Suc 0)) = LoadedState"
  by (simp_all add: reg_abc_def reg_ab_def example_defs)

lemma reg_da_facts:
  "entries reg_da = [Some 0, Some 1]" "currentIter reg_da = 0"
  "same_key (key ''a'') (objects reg_da 0)" "same_key (key ''a'') (objects reg_da (Suc 0))"
  "State (objects reg_da 0) = DetectedState" "State (objects reg_da (Suc 0)) = LoadedState"
  "len (table reg_da) = 2"
  by (simp_all add: reg_da_def example_defs)

lemma reg_aa_facts:
  "entries reg_aa = [Some 0, Some 1]"
  "key_of reg_aa (Some 0) = Some (''a'', 1)" "key_of reg_aa (Some (Suc 0)) = Some (''a'', 1)"
  by (simp_all add: reg_aa_def key_of_def UnloadedState_def example_defs)

lemma reachable_load: "reachable grow2 s \<Longrightarrow> reachable grow2 (load name s)"
  unfolding load_def by (rule reach_LoadPlugin)

lemma reachable_detected: "reachable grow2 s \<Longrightarrow> reachable grow2 (detected name s)"
proof -
  assume r: "reachable grow2 s"
  let ?r = "zero_loadedPlugin\<lparr>Meta := \<lparr>Name = name, Version = 1\<rparr>, State := DetectedState\<rparr>"
  have "reachable grow2 (snd (new_loadedPlugin ?r s))" using r by (rule reach_object)
  then have "reachable grow2 (snd (Append grow2 (Some (next_object s)) (snd (new_loadedPlugin ?r s))))"
    by (rule reach_Append) (simp add: new_loadedPlugin_def)
  then show ?thesis by (simp add: detected_def new_loadedPlugin_def Let_def)
qed

lemma reachable_examples:
  "reachable grow2 reg_ab" "reachable grow2 reg_abc" "reachable grow2 reg_aa"
  "reachable grow2 reg_da" "reachable grow2 reg_qxpp"
  unfolding reg_ab_def reg_abc_def reg_aa_def reg_da_def reg_qxpp_def
  by (intro reachable_load reachable_detected reach_new)+

lemma reg_ab_arrays:
  "arrays reg_ab 2 0 = Some 0" "arrays reg_ab 2 (Suc 0) = Some (Suc 0)"
  by (simp_all add: reg_ab_def example_defs)

lemma reg_qxpp_facts:
  "entries reg_qxpp = [Some 0, Some 1, Some 2, Some 3]" "currentIter reg_qxpp = 0"
  "same_key (key ''q'') (objects reg_qxpp 0)" "State (objects reg_qxpp 0) = LoadedState"
  "\<not> same_key (key ''p'') (objects reg_qxpp (Suc 0))"
  "same_key (key ''p'') (objects reg_qxpp 2)" "State (objects reg_qxpp 2) = DetectedState"
  "same_key (key ''p'') (objects reg_qxpp 3)" "State (objects reg_qxpp 3) = LoadedState"
  by (simp_all add: reg_qxpp_def example_defs)

lemma reg_xpp_facts:
  "UnloadPlugin (key ''q'') reg_qxpp = Return (None, reg_xpp)"
  "entries reg_xpp = [Some 1, Some 2, Some 3]" "currentIter reg_xpp = 2"
  "objects reg_xpp = objects reg_qxpp"
proof -
  have "\<exists>s'. UnloadPlugin (key ''q'') reg_qxpp = Return (None, s') \<and>
           entries s' = take 0 (entries reg_qxpp) @ drop (Suc 0) (entries reg_qxpp) \<and>
           length (entries s') + 1 = length (entries reg_qxpp) \<and>
           objects s' = objects reg_qxpp \<and>
           currentIter s' = (if 0 + 2 > length (entries reg_qxpp) then 0 else 0 + 2)"
    by (rule UnloadPlugin_removes [of reg_qxpp 0 0 "key ''q''"]) (simp_all add: reg_qxpp_facts)
  then obtain s' where s': "UnloadPlugin (key ''q'') reg_qxpp = Return (None, s')"
    "entries s' = [Some 1, Some 2, Some 3]" "objects s' = objects reg_qxpp" "currentIter s' = 2"
    by (auto simp: reg_qxpp_facts)
  from s'(1) have "reg_xpp = s'" by (simp add: reg_xpp_def after_unload_def)
  with s' show "UnloadPlugin (key ''q'') reg_qxpp = Return (None, reg_xpp)"
    "entries reg_xpp = [Some 1, Some 2, Some 3]" "currentIter reg_xpp = 2"
    "objects reg_xpp = objects reg_qxpp" by simp_all
qed


lemma reg_nil_facts:
  "entries reg_nil = [None]" "currentIter reg_nil = 0" "reachable grow2 reg_nil"
proof -
  show "entries reg_nil = [None]" "currentIter reg_nil = 0"
    by (simp_all add: reg_nil_def example_defs)
  show "reachable grow2 reg_nil"
    unfolding reg_nil_def by (rule reach_Append [OF reach_new]) simp
qed

section \<open>The claims\<close>

text \<open>
  C1, as amended. When the scan starts with the cursor at zero, every entry of the table
  before the first match is a non-nil reference to a record of another identity, and the
  first record whose (name, version) equals the given identity is in \<^verbatim>\<open>LoadedState\<close>,
  \<^verbatim>\<open>UnloadPlugin\<close> returns no error and removes exactly that record: the table
  afterwards is the old one without position \<open>i\<close>, in the old order and one shorter,
  and no record is changed.
\<close>

theorem UnloadPlugin_removes_first_match:
  assumes "currentIter s = 0" "i < length (entries s)" "entries s ! i = Some a"
    "same_key pl (objects s a)" "State (objects s a) = LoadedState"
    "\<forall>j<i. \<exists>b. entries s ! j = Some b \<and> \<not> same_key pl (objects s b)"
  shows "\<exists>s'. UnloadPlugin pl s = Return (None, s') \<and>
           entries s' = take i (entries s) @ drop (Suc i) (entries s) \<and>
           length (entries s') + 1 = length (entries s) \<and>
           objects s' = objects s"
proof -
  have c: "currentIter s \<le> i" using assms(1) by simp
  have "\<forall>j. currentIter s \<le> j \<and> j < i \<longrightarrow>
         (\<exists>b. entries s ! j = Some b \<and> \<not> same_key pl (objects s b))"
    using assms(6) by simp
  from UnloadPlugin_removes [OF c assms(2-5) this] show ?thesis by blast
qed

theorem UnloadPlugin_removes_first_match_witness:
  "currentIter reg_abc = 0 \<and> entries reg_abc = [Some 0, Some 1, Some 2] \<and>
   \<not> same_key (key ''b'') (objects reg_abc 0) \<and> same_key (key ''b'') (objects reg_abc (Suc 0)) \<and>
   State (objects reg_abc (Suc 0)) = LoadedState \<and>
   (\<exists>s'. UnloadPlugin (key ''b'') reg_abc = Return (None, s') \<and>
         entries s' = [Some 0, Some 2] \<and> objects s' = objects reg_abc)"
proof -
  have "\<forall>j<1. \<exists>b. entries reg_abc ! j = Some b \<and> \<not> same_key (key ''b'') (objects reg_abc b)"
    by (simp add: reg_abc_facts)
  from UnloadPlugin_removes_first_match [of reg_abc 1 1 "key ''b''", OF _ _ _ _ _ this]
  show ?thesis by (auto simp: reg_abc_facts)
qed

text \<open>
  C1 as stated fails: a registry can hold a record of the identity in \<^verbatim>\<open>LoadedState\<close>
  behind an earlier record of the same identity that is still in \<^verbatim>\<open>DetectedState\<close>.
  The scan stops at the first match, and the call fails with \<open>InvalidState\<close>.
\<close>

theorem UnloadPlugin_first_match_not_loaded:
  "entries reg_da = [Some 0, Some 1] \<and>
   same_key (key ''a'') (objects reg_da (Suc 0)) \<and> State (objects reg_da (Suc 0)) = LoadedState \<and>
   UnloadPlugin (key ''a'') reg_da = Return (Some InvalidState, reg_da\<lparr>currentIter := 2\<rparr>)"
proof -
  have "UnloadPlugin (key ''a'') reg_da = Return (Some InvalidState, reg_da\<lparr>currentIter := 2\<rparr>)"
    using UnloadPlugin_found [of reg_da 0 0 "key ''a''"]
    by (simp add: reg_da_facts DetectedState_def LoadedState_def)
  then show ?thesis by (simp add: reg_da_facts)
qed

text \<open>
  C2, as amended. In every registry that the operations produce from a new manager, no
  reference stands at two positions of the table. This is the uniqueness that
  \<^verbatim>\<open>Append\<close> checks; the (name, version) keys of different records are not compared.
\<close>

theorem reachable_references_distinct:
  "reachable grow s \<Longrightarrow> distinct (entries s)"
  using reachable_inv [of grow s] by (simp add: registry_inv_def)

theorem reachable_references_distinct_witness:
  "reachable grow2 reg_aa \<and> entries reg_aa = [Some 0, Some 1] \<and> distinct (entries reg_aa)"
  using reachable_references_distinct [of grow2 reg_aa]
  by (simp add: reachable_examples reg_aa_facts)

text \<open>
  C2 as stated fails: two successful loads of plugins that report the same name and
  version leave two records in \<^verbatim>\<open>LoadedState\<close> with the same key.
\<close>

theorem reachable_keys_not_unique:
  "reachable grow2 reg_aa \<and> \<not> unique_keys reg_aa"
  by (simp add: reachable_examples unique_keys_def reg_aa_facts List.map_filter_simps)

text \<open>
  C3, at the failing input. The snapshot that \<^verbatim>\<open>Table\<close> returns of a registry holding
  the records 0 and 1 shows them in this order; after \<^verbatim>\<open>Splice(0)\<close> on the live table the
  same snapshot shows record 1 at both positions, although no record was written: the
  splice moved the elements inside the backing array that the snapshot shares.
\<close>

theorem Splice_rewrites_snapshot:
  "elems reg_ab (Table reg_ab) = [Some 0, Some 1] \<and>
   (\<exists>s'. Splice 0 reg_ab = Return s' \<and> entries s' = [Some 1] \<and>
         objects s' = objects reg_ab \<and>
         elems s' (Table reg_ab) = [Some 1, Some 1])"
proof -
  have t: "Table reg_ab = \<lparr>arr = 2, len = 2, cap = 2\<rparr>"
    by (simp add: Table_def reg_ab_facts)
  have a: "elems reg_ab (Table reg_ab) = [Some 0, Some 1]"
    using reg_ab_facts(1) by (simp add: entries_def Table_def)
  have "0 < length (entries reg_ab)" by (simp add: reg_ab_facts)
  from splice_entries [OF this] obtain s' where s':
    "splice_table 0 reg_ab = Return s'" "entries s' = [Some 1]" "objects s' = objects reg_ab"
    by (auto simp: reg_ab_facts)
  have u: "[0..<2] = [0, Suc 0]" by (simp add: upt_rec)
  have "elems s' (Table reg_ab) = [Some 1, Some 1]"
    using splice_table_snapshot [OF s'(1), of "Table reg_ab"]
    by (simp add: t u reg_ab_facts reg_ab_arrays)
  with a s' show ?thesis by (simp add: Splice_def)
qed

text \<open>
  C4. \<^verbatim>\<open>Append\<close> with a reference the table already holds fails with the
  \<open>DuplicateEntry\<close> message of the position that holds it, and returns the registry as
  it was; with a reference the table does not hold it succeeds, and the table afterwards is
  the old one followed by the new reference.
\<close>

theorem Append_checks_the_reference:
  "(lp \<in> set (entries s) \<longrightarrow>
      (\<exists>i < length (entries s). entries s ! i = lp \<and>
         Append grow lp s = (Some (DuplicateEntry i), s))) \<and>
   (lp \<notin> set (entries s) \<longrightarrow>
      fst (Append grow lp s) = None \<and>
      entries (snd (Append grow lp s)) = entries s @ [lp])"
proof (intro conjI impI)
  assume "lp \<in> set (entries s)"
  then have "lp \<in> set (elems s (table s))" by (simp add: entries_def)
  from Append_duplicate [OF this, of grow]
  show "\<exists>i < length (entries s). entries s ! i = lp \<and>
          Append grow lp s = (Some (DuplicateEntry i), s)"
    by (auto simp: entries_def)
next
  assume "lp \<notin> set (entries s)"
  then have n: "lp \<notin> set (elems s (table s))" by (simp add: entries_def)
  from Append_fresh [OF n, of grow] show "fst (Append grow lp s) = None" by simp
  from Append_fresh [OF n, of grow]
  show "entries (snd (Append grow lp s)) = entries s @ [lp]" by (simp add: entries_def)
qed

theorem Append_checks_the_reference_witness:
  "Some 1 \<in> set (entries reg_ab) \<and>
   Append grow2 (Some 1) reg_ab = (Some (DuplicateEntry 1), reg_ab) \<and>
   length (entries (snd (Append grow2 (Some 1) reg_ab))) = length (entries reg_ab) \<and>
   Some 2 \<notin> set (entries reg_ab) \<and>
   fst (Append grow2 (Some 2) reg_ab) = None \<and>
   entries (snd (Append grow2 (Some 2) reg_ab)) = [Some 0, Some 1, Some 2]"
proof -
  have e: "entries reg_ab = [Some 0, Some 1]" by (rule reg_ab_facts)
  have "Some 1 \<in> set (entries reg_ab)" by (simp add: e)
  with Append_checks_the_reference [of "Some 1" reg_ab grow2]
  obtain i where i: "i < length (entries reg_ab)" "entries reg_ab ! i = Some 1"
    "Append grow2 (Some 1) reg_ab = (Some (DuplicateEntry i), reg_ab)"
    by blast
  from i(1,2) have "i = 1" by (cases i) (auto simp: e)
  with i(3) have d: "Append grow2 (Some 1) reg_ab = (Some (DuplicateEntry 1), reg_ab)" by simp
  from Append_checks_the_reference [of "Some 2" reg_ab grow2]
  have f: "fst (Append grow2 (Some 2) reg_ab) = None"
    "entries (snd (Append grow2 (Some 2) reg_ab)) = [Some 0, Some 1, Some 2]"
    by (simp_all add: e)
  from d f show ?thesis by (simp add: e)
qed

text \<open>
  C5. In a registry of length \<open>n\<close>, \<^verbatim>\<open>Get\<close> with an index of at least \<open>n\<close> fails with
  \<open>IndexOutOfRange\<close>, and with \<open>0 \<le> index < n\<close> it returns the reference at that
  position of the table.
\<close>

theorem Get_in_order:
  "(int (length (entries s)) \<le> index \<longrightarrow> Get index s = Return (None, Some IndexOutOfRange)) \<and>
   (0 \<le> index \<and> index < int (length (entries s)) \<longrightarrow>
      Get index s = Return (entries s ! nat index, None))"
  by (auto simp: Get_def entries_def elems_def)

theorem Get_in_order_witness:
  "length (entries reg_ab) = 2 \<and>
   Get 2 reg_ab = Return (None, Some IndexOutOfRange) \<and>
   Get 1 reg_ab = Return (Some 1, None) \<and>
   Get 0 reg_ab = Return (Some 0, None)"
  using Get_in_order [of reg_ab 2] Get_in_order [of reg_ab 1] Get_in_order [of reg_ab 0]
  by (simp add: reg_ab_facts)

text \<open>
  C6, as amended. When every entry of the table is a non-nil reference to a record whose
  (name, version) differs from the given identity, \<^verbatim>\<open>UnloadPlugin\<close> fails with the
  \<open>PluginNotFound\<close> message, the message contains the name and the decimal version, and
  the table, the backing arrays and the records are what they were; this holds from
  every cursor position.
\<close>

theorem UnloadPlugin_absent:
  assumes "\<forall>r \<in> set (entries s). \<exists>b. r = Some b \<and> \<not> same_key pl (objects s b)"
  shows "\<exists>s'. UnloadPlugin pl s =
             Return (Some (PluginNotFound (pl_Name pl) (pl_Version pl)), s') \<and>
           sublist (pl_Name pl) (PluginNotFound (pl_Name pl) (pl_Version pl)) \<and>
           sublist (Itoa (pl_Version pl)) (PluginNotFound (pl_Name pl) (pl_Version pl)) \<and>
           table s' = table s \<and> arrays s' = arrays s \<and> objects s' = objects s \<and>
           entries s' = entries s"
proof -
  have "\<forall>j. currentIter s \<le> j \<and> j < length (entries s) \<longrightarrow>
         (\<exists>b. entries s ! j = Some b \<and> \<not> same_key pl (objects s b))"
    using assms by (meson nth_mem)
  from UnloadPlugin_not_found [OF this] sublist_PluginNotFound [of "pl_Name pl" "pl_Version pl"]
  show ?thesis by simp
qed

theorem UnloadPlugin_absent_witness:
  "entries reg_abc = [Some 0, Some 1, Some 2] \<and>
   \<not> same_key (key ''z'') (objects reg_abc 0) \<and>
   \<not> same_key (key ''z'') (objects reg_abc (Suc 0)) \<and>
   \<not> same_key (key ''z'') (objects reg_abc 2) \<and>
   (\<exists>s'. UnloadPlugin (key ''z'') reg_abc =
           Return (Some ''plugin [z] -- [1] not found (has it already been unloaded?)'', s') \<and>
         entries s' = [Some 0, Some 1, Some 2])"
proof -
  have "\<forall>r \<in> set (entries reg_abc). \<exists>b. r = Some b \<and> \<not> same_key (key ''z'') (objects reg_abc b)"
    by (simp add: reg_abc_facts)
  from UnloadPlugin_absent [OF this]
  have "\<exists>s'. UnloadPlugin (key ''z'') reg_abc =
           Return (Some (PluginNotFound ''z'' 1), s') \<and> entries s' = entries reg_abc"
    by (auto simp: key_def)
  moreover have "PluginNotFound ''z'' 1 = ''plugin [z] -- [1] not found (has it already been unloaded?)''"
    by code_simp
  ultimately show ?thesis by (simp add: reg_abc_facts)
qed

text \<open>
  C6 as stated fails: \<^verbatim>\<open>Append\<close> accepts a nil pointer, and the registry that holds
  only that pointer contains no record of any identity. The scan of \<^verbatim>\<open>UnloadPlugin\<close>
  reads \<^verbatim>\<open>lp.Meta\<close> through it and panics; no \<open>PluginNotFound\<close> error is returned.
\<close>

theorem UnloadPlugin_nil_entry_panics:
  "reachable grow2 reg_nil \<and> entries reg_nil = [None] \<and>
   UnloadPlugin (key ''a'') reg_nil = Panic"
proof -
  have "UnloadPlugin (key ''a'') reg_nil = Panic"
    by (rule UnloadPlugin_nil_panics [of reg_nil 0]) (simp_all add: reg_nil_facts)
  then show ?thesis by (simp add: reg_nil_facts)
qed

text \<open>
  C7, at the failing input. The registry \<open>reg_xpp\<close> is what unloading \<open>q\<close> leaves of
  four appended records: the table holds the records 1, 2 and 3 and the cursor stands
  at 2. The first record of identity \<open>p\<close> is record 2, in \<^verbatim>\<open>DetectedState\<close>. Unloading
  \<open>p\<close> starts the scan behind it, finds record 3, returns no error and removes
  record 3.
\<close>

theorem UnloadPlugin_skips_first_match:
  "reachable grow2 reg_xpp \<and> entries reg_xpp = [Some 1, Some 2, Some 3] \<and>
   \<not> same_key (key ''p'') (objects reg_xpp 1) \<and>
   same_key (key ''p'') (objects reg_xpp 2) \<and> State (objects reg_xpp 2) = DetectedState \<and>
   DetectedState \<noteq> LoadedState \<and>
   (\<exists>s'. UnloadPlugin (key ''p'') reg_xpp = Return (None, s') \<and>
         entries s' = [Some 1, Some 2])"
proof -
  have r: "reachable grow2 reg_xpp"
    using reach_UnloadPlugin [OF reachable_examples(5) reg_xpp_facts(1)] .
  have "\<exists>s'. UnloadPlugin (key ''p'') reg_xpp = Return (None, s') \<and>
           entries s' = take 2 (entries reg_xpp) @ drop (Suc 2) (entries reg_xpp) \<and>
           length (entries s') + 1 = length (entries reg_xpp) \<and>
           objects s' = objects reg_xpp \<and>
           currentIter s' = (if 2 + 2 > length (entries reg_xpp) then 0 else 2 + 2)"
    by (rule UnloadPlugin_removes [of reg_xpp 2 3 "key ''p''"])
       (auto simp: reg_xpp_facts reg_qxpp_facts)
  then have "\<exists>s'. UnloadPlugin (key ''p'') reg_xpp = Return (None, s') \<and>
         entries s' = [Some 1, Some 2]"
    by (auto simp: reg_xpp_facts)
  with r show ?thesis
    by (simp add: reg_xpp_facts reg_qxpp_facts DetectedState_def LoadedState_def)
qed

text \<open>
  C8. When the handshake response is not a success, \<^verbatim>\<open>LoadPlugin\<close> fails with the
  \<open>HandshakeRejected\<close> message, which contains the message the plugin reported, and the
  table is what it was; and whenever \<^verbatim>\<open>LoadPlugin\<close> returns an error, whichever step
  failed, the table and its length are what they were.
\<close>

theorem LoadPlugin_failure_keeps_registry:
  "(create_err ext = None \<and> start_err ext = None \<and> wait_result ext = Inr resp \<and>
    resp_State resp \<noteq> PluginSuccess \<longrightarrow>
      fst (LoadPlugin grow ext path s) = Some (HandshakeRejected (resp_ErrorMessage resp)) \<and>
      sublist (resp_ErrorMessage resp) (HandshakeRejected (resp_ErrorMessage resp)) \<and>
      entries (snd (LoadPlugin grow ext path s)) = entries s) \<and>
   (fst (LoadPlugin grow ext path s) \<noteq> None \<longrightarrow>
      entries (snd (LoadPlugin grow ext path s)) = entries s \<and>
      length (entries (snd (LoadPlugin grow ext path s))) = length (entries s))"
proof (intro conjI impI)
  assume a: "create_err ext = None \<and> start_err ext = None \<and> wait_result ext = Inr resp \<and>
    resp_State resp \<noteq> PluginSuccess"
  then show r: "fst (LoadPlugin grow ext path s) = Some (HandshakeRejected (resp_ErrorMessage resp))"
    by (simp add: LoadPlugin_def new_loadedPlugin_def Let_def)
  show "sublist (resp_ErrorMessage resp) (HandshakeRejected (resp_ErrorMessage resp))"
    by (rule sublist_HandshakeRejected)
  from r have "fst (LoadPlugin grow ext path s) \<noteq> None" by simp
  from LoadPlugin_error_keeps_table [OF this]
  show "entries (snd (LoadPlugin grow ext path s)) = entries s" by simp
next
  assume "fst (LoadPlugin grow ext path s) \<noteq> None"
  from LoadPlugin_error_keeps_table [OF this]
  show "entries (snd (LoadPlugin grow ext path s)) = entries s"
    "length (entries (snd (LoadPlugin grow ext path s))) = length (entries s)" by simp_all
qed

theorem LoadPlugin_failure_keeps_registry_witness:
  "create_err refusal = None \<and> start_err refusal = None \<and>
   resp_State (projr (wait_result refusal)) \<noteq> PluginSuccess \<and>
   fst (LoadPlugin grow2 refusal ''/bin/r'' reg_ab) =
     Some (''Plugin loading did not succeed: bad config'' @ [CHR 0x0A]) \<and>
   entries (snd (LoadPlugin grow2 refusal ''/bin/r'' reg_ab)) = [Some 0, Some 1] \<and>
   fst (LoadPlugin grow2 (answer ''x''\<lparr>start_err := Some ''no such file''\<rparr>) ''/bin/x'' reg_ab)
     = Some ''no such file'' \<and>
   entries (snd (LoadPlugin grow2 (answer ''x''\<lparr>start_err := Some ''no such file''\<rparr>) ''/bin/x'' reg_ab))
     = [Some 0, Some 1]"
proof -
  let ?resp = "\<lparr>resp_State = PluginFailure, resp_ErrorMessage = ''bad config'',
                 resp_Meta = \<lparr>Name = [], Version = 0\<rparr>, resp_Type = 0, resp_Token = []\<rparr>"
  let ?ext = "answer ''x''\<lparr>start_err := Some ''no such file''\<rparr>"
  have 1: "fst (LoadPlugin grow2 refusal ''/bin/r'' reg_ab) = Some (HandshakeRejected ''bad config'')"
    "entries (snd (LoadPlugin grow2 refusal ''/bin/r'' reg_ab)) = entries reg_ab"
    using LoadPlugin_failure_keeps_registry [of refusal ?resp grow2 "''/bin/r''" reg_ab]
    by (simp_all add: refusal_def)
  have f: "fst (LoadPlugin grow2 ?ext ''/bin/x'' reg_ab) = Some ''no such file''"
    by (simp add: LoadPlugin_def new_loadedPlugin_def Let_def answer_def)
  then have 2: "entries (snd (LoadPlugin grow2 ?ext ''/bin/x'' reg_ab)) = entries reg_ab"
    using LoadPlugin_failure_keeps_registry [of ?ext ?resp grow2 "''/bin/x''" reg_ab]
    by simp
  show ?thesis
    using 1 f 2 by (simp add: refusal_def HandshakeRejected_def reg_ab_facts)
qed

text \<open>
  C9. When the scan of \<^verbatim>\<open>UnloadPlugin\<close> finds its match at a position \<open>i\<close> before the
  last one, the call returns with the cursor at \<open>i + 2\<close>, not at zero, whether it
  removes the record or fails on its state. The next scan advances the cursor to
  \<open>i + 3\<close> and reads the element at cursor minus one, position \<open>i + 2\<close>, or ends at
  once when the table is shorter; the positions before \<open>i + 2\<close> are not read, so an
  unload whose identity only they could match fails with \<open>PluginNotFound\<close>.
\<close>

theorem UnloadPlugin_leaves_cursor:
  assumes "currentIter s \<le> i" "i + 1 < length (entries s)" "entries s ! i = Some a"
    "same_key pl (objects s a)"
    "\<forall>j. currentIter s \<le> j \<and> j < i \<longrightarrow>
         (\<exists>b. entries s ! j = Some b \<and> \<not> same_key pl (objects s b))"
  shows "\<exists>err s'. UnloadPlugin pl s = Return (err, s') \<and> currentIter s' = i + 2 \<and>
           (i + 3 \<le> length (entries s') \<longrightarrow>
              Next s' = (True, s'\<lparr>currentIter := i + 3\<rparr>) \<and>
              Item (s'\<lparr>currentIter := i + 3\<rparr>) = Return (int (i + 2), entries s' ! (i + 2))) \<and>
           (length (entries s') < i + 3 \<longrightarrow> Next s' = (False, s'\<lparr>currentIter := 0\<rparr>)) \<and>
           (\<forall>pl'. (\<forall>j. i + 2 \<le> j \<and> j < length (entries s') \<longrightarrow>
                      (\<exists>b. entries s' ! j = Some b \<and> \<not> same_key pl' (objects s' b))) \<longrightarrow>
                  UnloadPlugin pl' s' =
                    Return (Some (PluginNotFound (pl_Name pl') (pl_Version pl')),
                            s'\<lparr>currentIter := 0\<rparr>))"
proof -
  let ?s1 = "s\<lparr>currentIter := (if i + 2 > len (table s) then 0 else i + 2)\<rparr>"
  have i: "i < length (entries s)" using assms(2) by simp
  have c1: "currentIter ?s1 = i + 2" using assms(2) by (simp add: length_entries)
  have "\<exists>err s'. UnloadPlugin pl s = Return (err, s') \<and> currentIter s' = i + 2"
  proof (cases "State (objects s a) = LoadedState")
    case False
    with UnloadPlugin_found [OF assms(1) i assms(3,4,5)] c1 show ?thesis by auto
  next
    case True
    have "i < length (entries ?s1)" using i by simp
    from splice_entries [OF this] obtain s' where
      "splice_table (int i) ?s1 = Return s'" "currentIter s' = currentIter ?s1" by blast
    with UnloadPlugin_found [OF assms(1) i assms(3,4,5)] True c1 show ?thesis by auto
  qed
  then obtain err s' where u: "UnloadPlugin pl s = Return (err, s')" and c: "currentIter s' = i + 2"
    by blast
  have n1: "Next s' = (True, s'\<lparr>currentIter := i + 3\<rparr>) \<and>
            Item (s'\<lparr>currentIter := i + 3\<rparr>) = Return (int (i + 2), entries s' ! (i + 2))"
    if "i + 3 \<le> length (entries s')"
  proof -
    from that c have "currentIter s' < len (table s')" by (simp add: length_entries)
    from Next_step [OF this] c have "Next s' = (True, s'\<lparr>currentIter := i + 3\<rparr>)" by simp
    moreover have "Item (s'\<lparr>currentIter := i + 3\<rparr>) = Return (int (i + 2), entries s' ! (i + 2))"
      using that Item_at [of "s'\<lparr>currentIter := i + 3\<rparr>"]
      by (simp add: length_entries nth_entries)
    ultimately show ?thesis by simp
  qed
  have n2: "Next s' = (False, s'\<lparr>currentIter := 0\<rparr>)" if "length (entries s') < i + 3"
    using that c Next_end [of s'] by (simp add: length_entries)
  have n3: "UnloadPlugin pl' s' =
              Return (Some (PluginNotFound (pl_Name pl') (pl_Version pl')), s'\<lparr>currentIter := 0\<rparr>)"
    if "\<forall>j. i + 2 \<le> j \<and> j < length (entries s') \<longrightarrow>
             (\<exists>b. entries s' ! j = Some b \<and> \<not> same_key pl' (objects s' b))" for pl'
    using that c by (intro UnloadPlugin_not_found) simp
  from u c n1 n2 n3 show ?thesis by blast
qed

theorem UnloadPlugin_leaves_cursor_witness:
  "currentIter reg_abc = 0 \<and> entries reg_abc = [Some 0, Some 1, Some 2] \<and>
   same_key (key ''a'') (objects reg_abc 0) \<and>
   (\<exists>err s'. UnloadPlugin (key ''a'') reg_abc = Return (err, s') \<and>
      currentIter s' = 2 \<and> entries s' = [Some 1, Some 2] \<and>
      same_key (key ''b'') (objects s' (Suc 0)) \<and>
      Next s' = (False, s'\<lparr>currentIter := 0\<rparr>) \<and>
      UnloadPlugin (key ''b'') s' =
        Return (Some (PluginNotFound ''b'' 1), s'\<lparr>currentIter := 0\<rparr>))"
proof -
  have h: "currentIter reg_abc \<le> 0" "0 + 1 < length (entries reg_abc)"
    "entries reg_abc ! 0 = Some 0" "same_key (key ''a'') (objects reg_abc 0)"
    "\<forall>j. currentIter reg_abc \<le> j \<and> j < 0 \<longrightarrow>
         (\<exists>b. entries reg_abc ! j = Some b \<and> \<not> same_key (key ''a'') (objects reg_abc b))"
    by (simp_all add: reg_abc_facts)
  from UnloadPlugin_leaves_cursor [OF h] obtain err s' where s':
    "UnloadPlugin (key ''a'') reg_abc = Return (err, s')" "currentIter s' = 2"
    "length (entries s') < 3 \<longrightarrow> Next s' = (False, s'\<lparr>currentIter := 0\<rparr>)"
    "\<forall>pl'. (\<forall>j. 2 \<le> j \<and> j < length (entries s') \<longrightarrow>
                      (\<exists>b. entries s' ! j = Some b \<and> \<not> same_key pl' (objects s' b))) \<longrightarrow>
                  UnloadPlugin pl' s' =
                    Return (Some (PluginNotFound (pl_Name pl') (pl_Version pl')),
                            s'\<lparr>currentIter := 0\<rparr>)"
    by auto
  from UnloadPlugin_removes [OF h(1) _ h(3,4) _ h(5)] s'(1)
  have e: "entries s' = [Some 1, Some 2]" "objects s' = objects reg_abc"
    by (auto simp: reg_abc_facts)
  have v: "\<forall>j. 2 \<le> j \<and> j < length (entries s') \<longrightarrow>
             (\<exists>b. entries s' ! j = Some b \<and> \<not> same_key (key ''b'') (objects s' b))"
    by (auto simp: e(1))
  from s'(4) [rule_format, of "key ''b''", OF v [rule_format]]
  have "UnloadPlugin (key ''b'') s' =
        Return (Some (PluginNotFound ''b'' 1), s'\<lparr>currentIter := 0\<rparr>)"
    by (simp add: key_def)
  with s' e show ?thesis by (auto simp: reg_abc_facts)
qed

text \<open>
  C10. \<^verbatim>\<open>Get\<close> guards the index from above only: with a negative index the
  \<open>IndexOutOfRange\<close> branch is not taken and the indexing panics, so \<^verbatim>\<open>Get\<close> returns
  normally exactly when the index is at least zero or at least the length.
\<close>

theorem Get_negative_index:
  "(index < 0 \<longrightarrow> Get index s = Panic \<and> Get index s \<noteq> Return (None, Some IndexOutOfRange)) \<and>
   (Get index s \<noteq> Panic) = (0 \<le> index \<or> int (length (entries s)) \<le> index)"
  by (auto simp: Get_def entries_def)

theorem Get_negative_index_witness:
  "Get (- 1) reg_ab = Panic \<and> Get (- 1) reg_ab \<noteq> Return (None, Some IndexOutOfRange) \<and>
   Get (- 1) newPluginManager = Panic"
  using Get_negative_index [of "- 1" reg_ab] Get_negative_index [of "- 1" newPluginManager]
  by simp

end
